theory Spec2Isabelle
  imports Main "HOL-Library.Sublist"
begin

section \<open>File Notes plugin: a shallow embedding\<close>

text \<open>
  The plugin keeps a companion markdown note beside each binary file of an Obsidian vault.
  This theory embeds \<^verbatim>\<open>file-operations.ts\<close>, \<^verbatim>\<open>main.ts\<close>, \<^verbatim>\<open>hidden-files.ts\<close>,
  \<^verbatim>\<open>context-menu.ts\<close> and the settings interface, function by function.

  JavaScript strings are modelled as \<^typ>\<open>string\<close>: a character is a code unit below
  256 (Basic Latin and Latin-1 Supplement), and the string functions do on these what the
  language does. Code units from 256 on are outside the type.
\<close>

subsection \<open>String primitives of the host language\<close>

text \<open>
  \<^verbatim>\<open>toLowerCase\<close>, per code unit. Below 256 the letters with a lower-case form are
  \<^verbatim>\<open>A-Z\<close> and the Latin-1 capitals \<^verbatim>\<open>0xC0-0xDE\<close> without the multiplication sign
  \<^verbatim>\<open>0xD7\<close>; the lower-case form is \<^verbatim>\<open>0x20\<close> further on.
\<close>

definition toLowerChar :: "char \<Rightarrow> char" where
  "toLowerChar c =
     (case map_of
             (zip (''ABCDEFGHIJKLMNOPQRSTUVWXYZ'' @
                   [CHR 0xC0, CHR 0xC1, CHR 0xC2, CHR 0xC3, CHR 0xC4, CHR 0xC5,
                    CHR 0xC6, CHR 0xC7, CHR 0xC8, CHR 0xC9, CHR 0xCA, CHR 0xCB,
                    CHR 0xCC, CHR 0xCD, CHR 0xCE, CHR 0xCF, CHR 0xD0, CHR 0xD1,
                    CHR 0xD2, CHR 0xD3, CHR 0xD4, CHR 0xD5, CHR 0xD6, CHR 0xD8,
                    CHR 0xD9, CHR 0xDA, CHR 0xDB, CHR 0xDC, CHR 0xDD, CHR 0xDE])
                  (''abcdefghijklmnopqrstuvwxyz'' @
                   [CHR 0xE0, CHR 0xE1, CHR 0xE2, CHR 0xE3, CHR 0xE4, CHR 0xE5,
                    CHR 0xE6, CHR 0xE7, CHR 0xE8, CHR 0xE9, CHR 0xEA, CHR 0xEB,
                    CHR 0xEC, CHR 0xED, CHR 0xEE, CHR 0xEF, CHR 0xF0, CHR 0xF1,
                    CHR 0xF2, CHR 0xF3, CHR 0xF4, CHR 0xF5, CHR 0xF6, CHR 0xF8,
                    CHR 0xF9, CHR 0xFA, CHR 0xFB, CHR 0xFC, CHR 0xFD, CHR 0xFE])) c of
        Some l \<Rightarrow> l
      | None \<Rightarrow> c)"

definition toLowerCase :: "string \<Rightarrow> string" where
  "toLowerCase s = map toLowerChar s"

text \<open>
  What \<^verbatim>\<open>trim\<close> strips: the white space and line terminator code units. Below 256 these
  are tab, line feed, vertical tab, form feed, carriage return, space and the no-break
  space \<^verbatim>\<open>0xA0\<close>.
\<close>

definition isWhiteSpace :: "char \<Rightarrow> bool" where
  "isWhiteSpace c =
     (c \<in> set [CHR '' '', CHR 0x09, CHR 0x0A, CHR 0x0B, CHR 0x0C, CHR 0x0D, CHR 0xA0])"

definition trim :: "string \<Rightarrow> string" where
  "trim s = rev (dropWhile isWhiteSpace (rev (dropWhile isWhiteSpace s)))"

text \<open>\<^verbatim>\<open>s.split(',')\<close>: the pieces between commas; the empty string gives one empty piece.\<close>

fun split_comma :: "string \<Rightarrow> string list" where
  "split_comma [] = [[]]"
| "split_comma (c # cs) =
     (if c = CHR '','' then [] # split_comma cs
      else (case split_comma cs of
              w # ws \<Rightarrow> (c # w) # ws
            | [] \<Rightarrow> [[c]]))"

text \<open>\<^verbatim>\<open>s.startsWith(p)\<close>.\<close>

definition startsWith :: "string \<Rightarrow> string \<Rightarrow> bool" where
  "startsWith s p = prefix p s"

subsection \<open>Settings and files\<close>

text \<open>
  The settings interface. The last two fields are declared by the newer of the two
  settings files of the repository; the older one stops at \<^verbatim>\<open>noteTemplate\<close>.
\<close>

record FileNoteSettings =
  fileExtensions :: string
  autoCreate :: bool
  excludedFiles :: "string list"
  excludedFolders :: "string list"
  hideFilesWithNotes :: bool
  noteTemplate :: string
  notesFolder :: string
  addSourceFrontmatter :: bool

definition DEFAULT_SETTINGS :: FileNoteSettings where
  "DEFAULT_SETTINGS =
     \<lparr> fileExtensions = ''mp4'', autoCreate = False, excludedFiles = [],
       excludedFolders = [], hideFilesWithNotes = False,
       noteTemplate = ''![[{{filename}}]]'', notesFolder = [],
       addSourceFrontmatter = False \<rparr>"

text \<open>
  The host's file handles: \<^verbatim>\<open>TAbstractFile\<close> has a path and a name, \<^verbatim>\<open>TFile\<close> adds the
  extension; a \<^verbatim>\<open>TFolder\<close> is a \<^verbatim>\<open>TAbstractFile\<close> that is not a \<^verbatim>\<open>TFile\<close>.
\<close>

record TAbstractFile =
  path :: string
  name :: string

record TFile = TAbstractFile +
  extension :: string

datatype vault_item = AFile TFile | AFolder TAbstractFile

subsection \<open>Note path and note content (file-operations.ts)\<close>

text \<open>
  \<^verbatim>\<open>p.replace(/\.[^.]+$/, '.md')\<close>. The pattern has no flags: it is tried at each position
  from the left, \<^verbatim>\<open>[^.]\<close> accepts every character but the dot (the slash and line breaks
  too), and \<^verbatim>\<open>$\<close> is the end of the string. The first match is replaced; as it reaches
  the end of the string nothing follows it.
\<close>

fun replaceExtension :: "string \<Rightarrow> string" where
  "replaceExtension [] = []"
| "replaceExtension (c # cs) =
     (if c = CHR ''.'' \<and> cs \<noteq> [] \<and> CHR ''.'' \<notin> set cs then ''.md''
      else c # replaceExtension cs)"

text \<open>
  Every class of the plugin keeps a reference to the one settings object;
  \<^verbatim>\<open>FileNoteOperations\<close> holds nothing else besides the host application, which is
  passed here as the vault where it is used.
\<close>

record SettingsRef =
  settings :: FileNoteSettings

type_synonym FileNoteOperations = SettingsRef

definition getNotePath :: "FileNoteOperations \<Rightarrow> 'a TFile_scheme \<Rightarrow> string" where
  "getNotePath ops file = replaceExtension (path file)"

text \<open>
  \<^verbatim>\<open>String.prototype.replace\<close> with a string as replacement expands the patterns
  \<^verbatim>\<open>$$\<close>, \<^verbatim>\<open>$&\<close>, \<^verbatim>\<open>$`\<close> and \<^verbatim>\<open>$'\<close> in it (the regular expression here has no groups, so
  \<^verbatim>\<open>$1\<close> and \<^verbatim>\<open>$<\<close> stay as they are). The arguments are the matched text, the text
  in front of the match, the text behind it, and the replacement.
\<close>

fun getSubstitution :: "string \<Rightarrow> string \<Rightarrow> string \<Rightarrow> string \<Rightarrow> string" where
  "getSubstitution m pre post [] = []"
| "getSubstitution m pre post [c] = [c]"
| "getSubstitution m pre post (c # d # r) =
     (if c = CHR ''$'' then
        (if d = CHR ''$'' then CHR ''$'' # getSubstitution m pre post r
         else if d = CHR ''&'' then m @ getSubstitution m pre post r
         else if d = CHR 0x60 then pre @ getSubstitution m pre post r
         else if d = CHR 0x27 then post @ getSubstitution m pre post r
         else c # getSubstitution m pre post (d # r))
      else c # getSubstitution m pre post (d # r))"

definition placeholder :: string where
  "placeholder = ''{{filename}}''"

text \<open>
  \<^verbatim>\<open>t.replace(/\{\{filename\}\}/g, r)\<close>: every match of the literal placeholder, found from
  the left in the original text and without overlap, is replaced by the expansion of
  \<^verbatim>\<open>r\<close>. The second argument is the part of the original text already passed.
\<close>

function replacePlaceholder :: "string \<Rightarrow> string \<Rightarrow> string \<Rightarrow> string" where
  "replacePlaceholder r pre [] = []"
| "replacePlaceholder r pre (c # cs) =
     (if prefix placeholder (c # cs)
      then getSubstitution placeholder pre (drop (length placeholder) (c # cs)) r
           @ replacePlaceholder r (pre @ placeholder) (drop (length placeholder) (c # cs))
      else c # replacePlaceholder r (pre @ [c]) cs)"
  by pat_completeness auto
termination
  by (relation "measure (\<lambda>(r, pre, s). length s)") (auto simp: placeholder_def)

definition getNoteContent :: "FileNoteOperations \<Rightarrow> 'a TFile_scheme \<Rightarrow> string" where
  "getNoteContent ops file = replacePlaceholder (name file) [] (noteTemplate (settings ops))"

text \<open>
  What the documentation of \<^verbatim>\<open>getNoteContent\<close> describes: every occurrence of the
  placeholder replaced by the file name as it is.
\<close>

function replaceLiterally :: "string \<Rightarrow> string \<Rightarrow> string" where
  "replaceLiterally r [] = []"
| "replaceLiterally r (c # cs) =
     (if prefix placeholder (c # cs)
      then r @ replaceLiterally r (drop (length placeholder) (c # cs))
      else c # replaceLiterally r cs)"
  by pat_completeness auto
termination
  by (relation "measure (\<lambda>(r, s). length s)") (auto simp: placeholder_def)

subsection \<open>The vault (host storage)\<close>

text \<open>
  The host keeps one entry per path: a file with its content, or a folder.
  \<^verbatim>\<open>getAbstractFileByPath\<close> is the lookup. \<^verbatim>\<open>vault.create\<close> rejects a path that is taken;
  beyond that, creation and deletion may fail for reasons of the storage layer
  (permissions, I/O), which the two predicates of \<open>host\<close> decide. A failed operation
  leaves the vault as it was.
\<close>

datatype vault_entry = FileEntry string | FolderEntry

type_synonym vault = "string \<rightharpoonup> vault_entry"

record host =
  createFails :: "vault \<Rightarrow> string \<Rightarrow> bool"
  deleteFails :: "vault \<Rightarrow> string \<Rightarrow> bool"

datatype storage_error = AlreadyExists | StorageFailure

definition getAbstractFileByPath :: "vault \<Rightarrow> string \<Rightarrow> vault_entry option" where
  "getAbstractFileByPath v p = v p"

definition vault_create :: "host \<Rightarrow> vault \<Rightarrow> string \<Rightarrow> string \<Rightarrow> storage_error + vault" where
  "vault_create h v p content =
     (if v p \<noteq> None then Inl AlreadyExists
      else if createFails h v p then Inl StorageFailure
      else Inr (v(p \<mapsto> FileEntry content)))"

definition vault_delete :: "host \<Rightarrow> vault \<Rightarrow> string \<Rightarrow> storage_error + vault" where
  "vault_delete h v p =
     (if deleteFails h v p then Inl StorageFailure else Inr (v(p := None)))"

text \<open>\<^verbatim>\<open>x instanceof TFile\<close> on the result of a lookup.\<close>

fun isTFile :: "vault_entry option \<Rightarrow> bool" where
  "isTFile (Some (FileEntry c)) = True"
| "isTFile (Some FolderEntry) = False"
| "isTFile None = False"

text \<open>Hosts used in the examples: one that never fails, one whose storage fails on one path.\<close>

definition reliableHost :: host where
  "reliableHost = \<lparr> createFails = (\<lambda>v p. False), deleteFails = (\<lambda>v p. False) \<rparr>"

definition hostFailingAt :: "string \<Rightarrow> host" where
  "hostFailingAt q = \<lparr> createFails = (\<lambda>v p. p = q), deleteFails = (\<lambda>v p. p = q) \<rparr>"

subsection \<open>Batch operations (file-operations.ts)\<close>

record BatchOperationResult =
  success :: nat
  skipped :: nat
  failed :: nat

definition noResult :: BatchOperationResult where
  "noResult = \<lparr> success = 0, skipped = 0, failed = 0 \<rparr>"

text \<open>
  The \<^verbatim>\<open>for\<close> loop of \<^verbatim>\<open>createFileNotes\<close>, with the vault and the three counters as its
  state. The \<^verbatim>\<open>catch\<close> branch counts the failure and goes on with the next file.
\<close>

fun createLoop ::
  "host \<Rightarrow> FileNoteOperations \<Rightarrow> TFile list \<Rightarrow> vault \<times> BatchOperationResult
     \<Rightarrow> vault \<times> BatchOperationResult" where
  "createLoop h ops [] (v, r) = (v, r)"
| "createLoop h ops (file # files) (v, r) =
     (let mdPath = getNotePath ops file;
          exists = getAbstractFileByPath v mdPath
      in if exists \<noteq> None then createLoop h ops files (v, r\<lparr>skipped := skipped r + 1\<rparr>)
         else (case vault_create h v mdPath (getNoteContent ops file) of
                 Inr v' \<Rightarrow> createLoop h ops files (v', r\<lparr>success := success r + 1\<rparr>)
               | Inl e \<Rightarrow> createLoop h ops files (v, r\<lparr>failed := failed r + 1\<rparr>)))"

definition createFileNotes ::
  "host \<Rightarrow> FileNoteOperations \<Rightarrow> TFile list \<Rightarrow> vault \<Rightarrow> vault \<times> BatchOperationResult" where
  "createFileNotes h ops files v = createLoop h ops files (v, noResult)"

fun removeLoop ::
  "host \<Rightarrow> FileNoteOperations \<Rightarrow> TFile list \<Rightarrow> vault \<times> BatchOperationResult
     \<Rightarrow> vault \<times> BatchOperationResult" where
  "removeLoop h ops [] (v, r) = (v, r)"
| "removeLoop h ops (file # files) (v, r) =
     (let mdPath = getNotePath ops file;
          mdFile = getAbstractFileByPath v mdPath
      in if mdFile = None \<or> \<not> isTFile mdFile
         then removeLoop h ops files (v, r\<lparr>skipped := skipped r + 1\<rparr>)
         else (case vault_delete h v mdPath of
                 Inr v' \<Rightarrow> removeLoop h ops files (v', r\<lparr>success := success r + 1\<rparr>)
               | Inl e \<Rightarrow> removeLoop h ops files (v, r\<lparr>failed := failed r + 1\<rparr>)))"

definition removeFileNotes ::
  "host \<Rightarrow> FileNoteOperations \<Rightarrow> TFile list \<Rightarrow> vault \<Rightarrow> vault \<times> BatchOperationResult" where
  "removeFileNotes h ops files v = removeLoop h ops files (v, noResult)"

text \<open>The notes that exist for the given files, as their paths.\<close>

definition getExistingNotes :: "FileNoteOperations \<Rightarrow> TFile list \<Rightarrow> vault \<Rightarrow> string list" where
  "getExistingNotes ops files v =
     filter (\<lambda>p. isTFile (getAbstractFileByPath v p)) (map (getNotePath ops) files)"

text \<open>Adding the counters of two runs, to state how a batch splits.\<close>

definition addResults :: "BatchOperationResult \<Rightarrow> BatchOperationResult \<Rightarrow> BatchOperationResult" where
  "addResults a b =
     \<lparr> success = success a + success b, skipped = skipped a + skipped b,
       failed = failed a + failed b \<rparr>"

subsection \<open>The plugin (main.ts)\<close>

definition EXCLUDED_EXTENSIONS :: "string set" where
  "EXCLUDED_EXTENSIONS = set [''md'', ''canvas'', ''base'']"

text \<open>
  The plugin object: the settings, the cache of parsed extensions (\<^verbatim>\<open>null\<close> is \<open>None\<close>)
  and the two sets rebuilt from the exclusion lists.
\<close>

record FileNotePlugin = SettingsRef +
  cachedExtensions :: "string set option"
  excludedFilesSet :: "string set"
  excludedFoldersSet :: "string set"

definition fileOps :: "FileNotePlugin \<Rightarrow> FileNoteOperations" where
  "fileOps p = \<lparr> settings = settings p \<rparr>"



fun isEligibleFile :: "vault_item \<Rightarrow> bool" where
  "isEligibleFile (AFile file) = (toLowerCase (extension file) \<notin> EXCLUDED_EXTENSIONS)"
| "isEligibleFile (AFolder folder) = False"

text \<open>The body of \<^verbatim>\<open>getExtensions\<close> that runs when the cache is empty.\<close>

definition parseExtensions :: "string \<Rightarrow> string list" where
  "parseExtensions raw =
     filter (\<lambda>ext. length ext > 0 \<and> ext \<noteq> ''md'')
       (map (\<lambda>ext. toLowerCase (trim ext)) (split_comma raw))"

definition getExtensions :: "FileNotePlugin \<Rightarrow> string set \<times> FileNotePlugin" where
  "getExtensions p =
     (case cachedExtensions p of
        None \<Rightarrow>
          (let extensions = parseExtensions (fileExtensions (settings p))
           in (set extensions, p\<lparr>cachedExtensions := Some (set extensions)\<rparr>))
      | Some cached \<Rightarrow> (cached, p))"

definition isInExcludedFolder :: "FileNotePlugin \<Rightarrow> string \<Rightarrow> bool" where
  "isInExcludedFolder p filePath =
     list_ex (\<lambda>folder. startsWith filePath (folder @ ''/'')) (excludedFolders (settings p))"

fun shouldCreateNoteFor :: "FileNotePlugin \<Rightarrow> vault_item \<Rightarrow> bool \<times> FileNotePlugin" where
  "shouldCreateNoteFor p (AFolder folder) = (False, p)"
| "shouldCreateNoteFor p (AFile file) =
     (if \<not> isEligibleFile (AFile file) then (False, p)
      else (let (extensions, p') = getExtensions p
            in if toLowerCase (extension file) \<notin> extensions then (False, p')
               else if path file \<in> excludedFilesSet p' then (False, p')
               else if isInExcludedFolder p' (path file) then (False, p')
               else (True, p')))"

definition rebuildExclusionSets :: "FileNotePlugin \<Rightarrow> FileNotePlugin" where
  "rebuildExclusionSets p =
     p\<lparr> excludedFilesSet := set (excludedFiles (settings p)),
        excludedFoldersSet := set (excludedFolders (settings p)) \<rparr>"

text \<open>
  \<^verbatim>\<open>loadSettings\<close> on a new plugin object, where \<open>loaded\<close> is the stored data merged over
  the defaults.
\<close>

definition loadSettings :: "FileNoteSettings \<Rightarrow> FileNotePlugin" where
  "loadSettings loaded =
     rebuildExclusionSets
       \<lparr> settings = loaded, cachedExtensions = None, excludedFilesSet = {},
         excludedFoldersSet = {} \<rparr>"

text \<open>
  \<^verbatim>\<open>saveSettings\<close> first awaits \<^verbatim>\<open>saveData\<close>; \<open>saved\<close> tells whether that write resolved.
  When it rejects, the rejection passes through: the cache is not cleared and the sets
  are not rebuilt. The plugin object stays, with what the caller changed in the settings
  before the call.
\<close>

definition saveSettings :: "bool \<Rightarrow> FileNotePlugin \<Rightarrow> FileNotePlugin \<times> (storage_error + unit)" where
  "saveSettings saved p =
     (if saved then (rebuildExclusionSets (p\<lparr>cachedExtensions := None\<rparr>), Inr ())
      else (p, Inl StorageFailure))"

definition toggleFileExclusion ::
  "FileNotePlugin \<Rightarrow> 'a TFile_scheme \<Rightarrow> bool \<Rightarrow> bool \<Rightarrow> FileNotePlugin \<times> (storage_error + unit)" where
  "toggleFileExclusion p file exclude saved =
     saveSettings saved
       (if exclude then
          (if path file \<notin> excludedFilesSet p
           then p\<lparr>settings := (settings p)
                    \<lparr>excludedFiles := excludedFiles (settings p) @ [path file]\<rparr>\<rparr>
           else p)
        else p\<lparr>settings := (settings p)
                 \<lparr>excludedFiles := filter (\<lambda>q. q \<noteq> path file) (excludedFiles (settings p))\<rparr>\<rparr>)"

definition toggleFolderExclusion ::
  "FileNotePlugin \<Rightarrow> TAbstractFile \<Rightarrow> bool \<Rightarrow> bool \<Rightarrow> FileNotePlugin \<times> (storage_error + unit)" where
  "toggleFolderExclusion p folder exclude saved =
     saveSettings saved
       (if exclude then
          (if path folder \<notin> excludedFoldersSet p
           then p\<lparr>settings := (settings p)
                    \<lparr>excludedFolders := excludedFolders (settings p) @ [path folder]\<rparr>\<rparr>
           else p)
        else p\<lparr>settings := (settings p)
                 \<lparr>excludedFolders :=
                    filter (\<lambda>q. q \<noteq> path folder) (excludedFolders (settings p))\<rparr>\<rparr>)"



text \<open>
  The state of the plugin between two of its methods: the cache, when filled, holds the
  parsed extensions of the current settings, and the sets mirror the lists.
\<close>

definition consistent :: "FileNotePlugin \<Rightarrow> bool" where
  "consistent p =
     ((cachedExtensions p = None
        \<or> cachedExtensions p = Some (set (parseExtensions (fileExtensions (settings p)))))
      \<and> excludedFilesSet p = set (excludedFiles (settings p))
      \<and> excludedFoldersSet p = set (excludedFolders (settings p)))"

text \<open>
  Bulk removal. \<open>allFiles\<close> is the result of \<^verbatim>\<open>vault.getFiles()\<close>; \<open>confirmed\<close> is the
  user's answer in the confirmation dialog. The result is \<open>None\<close> when no batch ran.
\<close>

definition confirmAndRemoveFileNotes ::
  "FileNotePlugin \<Rightarrow> host \<Rightarrow> TFile list \<Rightarrow> bool \<Rightarrow> vault
     \<Rightarrow> vault \<times> BatchOperationResult option" where
  "confirmAndRemoveFileNotes p h files confirmed v =
     (let notesToDelete = getExistingNotes (fileOps p) files v
      in if length notesToDelete = 0 then (v, None)
         else if confirmed
              then (let (v', result) = removeFileNotes h (fileOps p) files v
                    in (v', Some result))
              else (v, None))"

definition removeAllFileNotes ::
  "FileNotePlugin \<Rightarrow> host \<Rightarrow> TFile list \<Rightarrow> bool \<Rightarrow> vault
     \<Rightarrow> vault \<times> BatchOperationResult option" where
  "removeAllFileNotes p h allFiles confirmed v =
     (let files = filter (\<lambda>f. isEligibleFile (AFile f)) allFiles
      in confirmAndRemoveFileNotes p h files confirmed v)"

definition removeFileNotesInFolder ::
  "FileNotePlugin \<Rightarrow> host \<Rightarrow> TFile list \<Rightarrow> TAbstractFile \<Rightarrow> bool \<Rightarrow> vault
     \<Rightarrow> vault \<times> BatchOperationResult option" where
  "removeFileNotesInFolder p h allFiles folder confirmed v =
     (let files = filter (\<lambda>f. startsWith (path f) (path folder @ ''/'')
                              \<and> isEligibleFile (AFile f)) allFiles
      in confirmAndRemoveFileNotes p h files confirmed v)"

subsection \<open>Hidden files (hidden-files.ts)\<close>

text \<open>
  The file explorer's \<^verbatim>\<open>fileItems\<close>: one entry per path, with the flag telling whether
  its element carries the class \<^verbatim>\<open>file-note-hidden\<close>. The leaf may be missing, and so may
  the view's items.
\<close>

record FileExplorerView =
  fileItems :: "(string \<times> bool) list option"

record HiddenFilesManager = SettingsRef +
  hasHiddenFiles :: bool

definition newHiddenFilesManager :: "FileNoteSettings \<Rightarrow> HiddenFilesManager" where
  "newHiddenFilesManager s = \<lparr> settings = s, hasHiddenFiles = False \<rparr>"

text \<open>The loop over the entries; the number is \<^verbatim>\<open>hiddenCount\<close>.\<close>

fun updateItems ::
  "HiddenFilesManager \<Rightarrow> vault \<Rightarrow> (string \<times> bool) list \<Rightarrow> nat \<Rightarrow> (string \<times> bool) list \<times> nat" where
  "updateItems m v [] hiddenCount = ([], hiddenCount)"
| "updateItems m v ((p, marked) # items) hiddenCount =
     (let notePath = replaceExtension p
      in if p = notePath
         then (let (items', n) = updateItems m v items hiddenCount
               in ((p, marked) # items', n))
         else (let noteExists = getAbstractFileByPath v notePath
               in if hideFilesWithNotes (settings m) \<and> noteExists \<noteq> None
                  then (let (items', n) = updateItems m v items (hiddenCount + 1)
                        in ((p, True) # items', n))
                  else (let (items', n) = updateItems m v items hiddenCount
                        in ((p, False) # items', n))))"

definition update ::
  "HiddenFilesManager \<Rightarrow> vault \<Rightarrow> FileExplorerView option
     \<Rightarrow> HiddenFilesManager \<times> FileExplorerView option" where
  "update m v fileExplorer =
     (if \<not> hideFilesWithNotes (settings m) \<and> \<not> hasHiddenFiles m then (m, fileExplorer)
      else (case fileExplorer of
              None \<Rightarrow> (m, fileExplorer)
            | Some fileExplorerView \<Rightarrow>
                (case fileItems fileExplorerView of
                   None \<Rightarrow> (m, fileExplorer)
                 | Some items \<Rightarrow>
                     (let (items', hiddenCount) = updateItems m v items 0
                      in (m\<lparr>hasHiddenFiles := hiddenCount > 0\<rparr>,
                          Some (fileExplorerView\<lparr>fileItems := Some items'\<rparr>))))))"

text \<open>The entries of a file explorer, none when the leaf or its items are missing.\<close>

definition itemsOf :: "FileExplorerView option \<Rightarrow> (string \<times> bool) list" where
  "itemsOf fileExplorer =
     (case fileExplorer of
        None \<Rightarrow> []
      | Some fileExplorerView \<Rightarrow>
          (case fileItems fileExplorerView of None \<Rightarrow> [] | Some items \<Rightarrow> items))"

text \<open>
  What holds of the manager and the explorer between two passes: only entries whose path
  the pattern changes carry the mark (nothing else sets it), and the flag is set whenever
  an entry is marked.
\<close>

definition marksTracked :: "HiddenFilesManager \<Rightarrow> FileExplorerView option \<Rightarrow> bool" where
  "marksTracked m fileExplorer =
     ((\<forall>(p, marked) \<in> set (itemsOf fileExplorer). marked \<longrightarrow> replaceExtension p \<noteq> p)
      \<and> ((\<exists>(p, marked) \<in> set (itemsOf fileExplorer). marked) \<longrightarrow> hasHiddenFiles m))"

subsection \<open>Notions used in the statements\<close>

text \<open>
  Comma-separated text: the entries joined by commas. It states what the pieces of
  \<open>split_comma\<close> are.
\<close>

fun joinComma :: "string list \<Rightarrow> string" where
  "joinComma [] = []"
| "joinComma [x] = x"
| "joinComma (x # y # ys) = x @ CHR '','' # joinComma (y # ys)"

text \<open>The code units that \<^verbatim>\<open>toLowerCase\<close> changes.\<close>

definition upperCaseLetters :: "char set" where
  "upperCaseLetters =
     set (''ABCDEFGHIJKLMNOPQRSTUVWXYZ'' @
          [CHR 0xC0, CHR 0xC1, CHR 0xC2, CHR 0xC3, CHR 0xC4, CHR 0xC5,
           CHR 0xC6, CHR 0xC7, CHR 0xC8, CHR 0xC9, CHR 0xCA, CHR 0xCB,
           CHR 0xCC, CHR 0xCD, CHR 0xCE, CHR 0xCF, CHR 0xD0, CHR 0xD1,
           CHR 0xD2, CHR 0xD3, CHR 0xD4, CHR 0xD5, CHR 0xD6, CHR 0xD8,
           CHR 0xD9, CHR 0xDA, CHR 0xDB, CHR 0xDC, CHR 0xDD, CHR 0xDE])"

text \<open>
  What one pass does to an entry, stated per entry: whether the pass marks a path, and the
  entry it leaves.
\<close>

definition hiddenByPass :: "HiddenFilesManager \<Rightarrow> vault \<Rightarrow> string \<Rightarrow> bool" where
  "hiddenByPass m v p =
     (replaceExtension p \<noteq> p \<and> hideFilesWithNotes (settings m) \<and> v (replaceExtension p) \<noteq> None)"

definition itemAfterPass :: "HiddenFilesManager \<Rightarrow> vault \<Rightarrow> string \<times> bool \<Rightarrow> string \<times> bool" where
  "itemAfterPass m v item =
     (if replaceExtension (fst item) = fst item then item
      else (fst item, hiddenByPass m v (fst item)))"

subsection \<open>Example data\<close>

definition videoFile :: TFile where
  "videoFile = \<lparr> path = ''a.mp4'', name = ''a.mp4'', extension = ''mp4'' \<rparr>"

definition paperFile :: TFile where
  "paperFile = \<lparr> path = ''docs/b.pdf'', name = ''b.pdf'', extension = ''pdf'' \<rparr>"

definition imageFile :: TFile where
  "imageFile = \<lparr> path = ''c.png'', name = ''c.png'', extension = ''png'' \<rparr>"

definition exampleFiles :: "TFile list" where
  "exampleFiles = [videoFile, paperFile, imageFile]"

definition exampleVault :: vault where
  "exampleVault = [''a.md'' \<mapsto> FileEntry ''![[a.mp4]]'']"

definition defaultOps :: FileNoteOperations where
  "defaultOps = \<lparr> settings = DEFAULT_SETTINGS \<rparr>"

definition licenceFile :: TFile where
  "licenceFile = \<lparr> path = ''dir.v2/LICENSE'', name = ''LICENSE'', extension = [] \<rparr>"

definition cashFile :: TFile where
  "cashFile = \<lparr> path = ''Cash$$.pdf'', name = ''Cash$$.pdf'', extension = ''pdf'' \<rparr>"

definition reportFile :: TFile where
  "reportFile = \<lparr> path = ''report.pdf'', name = ''report.pdf'', extension = ''pdf'' \<rparr>"

definition headingOps :: FileNoteOperations where
  "headingOps = \<lparr> settings = DEFAULT_SETTINGS\<lparr>noteTemplate := ''# {{filename}}''\<rparr> \<rparr>"

definition messySettings :: FileNoteSettings where
  "messySettings =
     DEFAULT_SETTINGS\<lparr>fileExtensions :=
       '' MP4 ,pdf,,md , PnG,pdf,'' @ [CHR 0xA0] @ ''Jpg'' @ [CHR 0xA0]\<rparr>"

definition exclusionSettings :: FileNoteSettings where
  "exclusionSettings =
     DEFAULT_SETTINGS\<lparr> fileExtensions := ''mp4, pdf'', excludedFiles := [''x.pdf''],
                        excludedFolders := [''A''] \<rparr>"

definition nestedFile :: TFile where
  "nestedFile = \<lparr> path = ''A/B/c.mp4'', name = ''c.mp4'', extension = ''mp4'' \<rparr>"

definition excludedFile :: TFile where
  "excludedFile = \<lparr> path = ''x.pdf'', name = ''x.pdf'', extension = ''pdf'' \<rparr>"


definition hidingSettings :: FileNoteSettings where
  "hidingSettings = DEFAULT_SETTINGS\<lparr>hideFilesWithNotes := True\<rparr>"

definition explorerItems :: "FileExplorerView option" where
  "explorerItems =
     Some \<lparr> fileItems = Some [(''video.mp4'', False), (''video.md'', False), (''notes'', False)] \<rparr>"

definition videoVault :: vault where
  "videoVault = [''video.mp4'' \<mapsto> FileEntry ''data'', ''video.md'' \<mapsto> FileEntry ''![[video.mp4]]'',
                 ''notes'' \<mapsto> FolderEntry]"

definition noteFile :: TFile where
  "noteFile = \<lparr> path = ''x.md'', name = ''x.md'', extension = ''md'' \<rparr>"

definition topFolderA :: TAbstractFile where
  "topFolderA = \<lparr> path = ''A'', name = ''A'' \<rparr>"

definition manyNotesVault :: vault where
  "manyNotesVault =
     [''x.md'' \<mapsto> FileEntry ''![[x.pdf]]'', ''c.md'' \<mapsto> FileEntry ''![[c.png]]'',
      ''A/B/c.md'' \<mapsto> FileEntry ''![[c.mp4]]'']"

section \<open>Properties\<close>

subsection \<open>Batch operations\<close>

lemma addResults_noResult: "addResults r noResult = r"
  by (simp add: addResults_def noResult_def)

lemma addResults_bump:
  "(addResults r s)\<lparr>skipped := skipped (addResults r s) + 1\<rparr>
     = addResults r (s\<lparr>skipped := skipped s + 1\<rparr>)"
  "(addResults r s)\<lparr>success := success (addResults r s) + 1\<rparr>
     = addResults r (s\<lparr>success := success s + 1\<rparr>)"
  "(addResults r s)\<lparr>failed := failed (addResults r s) + 1\<rparr>
     = addResults r (s\<lparr>failed := failed s + 1\<rparr>)"
  by (simp_all add: addResults_def)

text \<open>Counters already collected pass through the rest of the loop untouched.\<close>

lemma createLoop_shift:
  "createLoop h ops files (v, addResults r s) =
     (fst (createLoop h ops files (v, s)), addResults r (snd (createLoop h ops files (v, s))))"
proof (induction files arbitrary: v s)
  case Nil
  show ?case by simp
next
  case (Cons f fs)
  show ?case
    by (simp only: createLoop.simps Let_def addResults_bump Cons.IH split: sum.split if_split)
       simp
qed

lemma createLoop_append:
  "createLoop h ops (fs @ gs) s = createLoop h ops gs (createLoop h ops fs s)"
proof (induction fs arbitrary: s)
  case Nil
  show ?case by (cases s) simp
next
  case (Cons f fs)
  obtain v r where s: "s = (v, r)" by (cases s)
  show ?case unfolding s
    by (simp add: Let_def Cons.IH split: sum.split)
qed

lemma createFileNotes_append:
  "createFileNotes h ops (fs @ gs) v =
     (let (v1, r1) = createFileNotes h ops fs v;
          (v2, r2) = createFileNotes h ops gs v1
      in (v2, addResults r1 r2))"
proof -
  obtain v1 r1 where a: "createLoop h ops fs (v, noResult) = (v1, r1)"
    by (cases "createLoop h ops fs (v, noResult)")
  show ?thesis
    using createLoop_shift [of h ops gs v1 r1 noResult]
    by (simp add: createFileNotes_def createLoop_append a addResults_noResult split: prod.split)
qed

lemma createFileNotes_single:
  "createFileNotes h ops [f] v =
     (if v (getNotePath ops f) \<noteq> None then (v, noResult\<lparr>skipped := 1\<rparr>)
      else if createFails h v (getNotePath ops f) then (v, noResult\<lparr>failed := 1\<rparr>)
      else (v(getNotePath ops f \<mapsto> FileEntry (getNoteContent ops f)),
            noResult\<lparr>success := 1\<rparr>))"
  by (simp add: createFileNotes_def Let_def getAbstractFileByPath_def vault_create_def
        noResult_def)

lemma createLoop_total:
  "success (snd (createLoop h ops files (v, r))) + skipped (snd (createLoop h ops files (v, r)))
     + failed (snd (createLoop h ops files (v, r)))
   = success r + skipped r + failed r + length files"
  by (induction files arbitrary: v r) (auto simp: Let_def split: sum.split)

lemma removeLoop_shift:
  "removeLoop h ops files (v, addResults r s) =
     (fst (removeLoop h ops files (v, s)), addResults r (snd (removeLoop h ops files (v, s))))"
proof (induction files arbitrary: v s)
  case Nil
  show ?case by simp
next
  case (Cons f fs)
  show ?case
    by (simp only: removeLoop.simps Let_def addResults_bump Cons.IH split: sum.split if_split)
       auto
qed

lemma removeLoop_append:
  "removeLoop h ops (fs @ gs) s = removeLoop h ops gs (removeLoop h ops fs s)"
proof (induction fs arbitrary: s)
  case Nil
  show ?case by (cases s) simp
next
  case (Cons f fs)
  obtain v r where s: "s = (v, r)" by (cases s)
  show ?case unfolding s
    by (simp add: Let_def Cons.IH split: sum.split)
qed

lemma removeFileNotes_append:
  "removeFileNotes h ops (fs @ gs) v =
     (let (v1, r1) = removeFileNotes h ops fs v;
          (v2, r2) = removeFileNotes h ops gs v1
      in (v2, addResults r1 r2))"
proof -
  obtain v1 r1 where a: "removeLoop h ops fs (v, noResult) = (v1, r1)"
    by (cases "removeLoop h ops fs (v, noResult)")
  show ?thesis
    using removeLoop_shift [of h ops gs v1 r1 noResult]
    by (simp add: removeFileNotes_def removeLoop_append a addResults_noResult split: prod.split)
qed

lemma removeFileNotes_single:
  "removeFileNotes h ops [f] v =
     (if \<not> isTFile (v (getNotePath ops f)) then (v, noResult\<lparr>skipped := 1\<rparr>)
      else if deleteFails h v (getNotePath ops f) then (v, noResult\<lparr>failed := 1\<rparr>)
      else (v(getNotePath ops f := None), noResult\<lparr>success := 1\<rparr>))"
  by (auto simp: removeFileNotes_def Let_def getAbstractFileByPath_def vault_delete_def
        noResult_def)

lemma removeLoop_total:
  "success (snd (removeLoop h ops files (v, r))) + skipped (snd (removeLoop h ops files (v, r)))
     + failed (snd (removeLoop h ops files (v, r)))
   = success r + skipped r + failed r + length files"
  by (induction files arbitrary: v r) (auto simp: Let_def split: sum.split)

text \<open>
  Claim C1. Batch create and batch remove treat each file on its own, in list order. An
  empty list gives three zero counters. A single file counts as skipped when its note is
  already there (create) or is no file of the vault (remove), as failed when the storage
  operation fails, and as success otherwise, with the vault changed at the note path only
  in the last case. A batch over \<open>fs @ gs\<close> is the batch over \<open>fs\<close> followed by the batch
  over \<open>gs\<close> on the vault the first one left, with the counters added: whatever happens to
  one file, the files behind it are processed. The counters are always returned and add
  up to the number of files.
\<close>

theorem batch_file_by_file:
  "createFileNotes h ops [] v = (v, noResult)
   \<and> createFileNotes h ops [f] v =
       (if v (getNotePath ops f) \<noteq> None then (v, noResult\<lparr>skipped := 1\<rparr>)
        else if createFails h v (getNotePath ops f) then (v, noResult\<lparr>failed := 1\<rparr>)
        else (v(getNotePath ops f \<mapsto> FileEntry (getNoteContent ops f)),
              noResult\<lparr>success := 1\<rparr>))
   \<and> createFileNotes h ops (fs @ gs) v =
       (let (v1, r1) = createFileNotes h ops fs v;
            (v2, r2) = createFileNotes h ops gs v1
        in (v2, addResults r1 r2))
   \<and> success (snd (createFileNotes h ops files v)) + skipped (snd (createFileNotes h ops files v))
       + failed (snd (createFileNotes h ops files v)) = length files
   \<and> removeFileNotes h ops [] v = (v, noResult)
   \<and> removeFileNotes h ops [f] v =
       (if \<not> isTFile (v (getNotePath ops f)) then (v, noResult\<lparr>skipped := 1\<rparr>)
        else if deleteFails h v (getNotePath ops f) then (v, noResult\<lparr>failed := 1\<rparr>)
        else (v(getNotePath ops f := None), noResult\<lparr>success := 1\<rparr>))
   \<and> removeFileNotes h ops (fs @ gs) v =
       (let (v1, r1) = removeFileNotes h ops fs v;
            (v2, r2) = removeFileNotes h ops gs v1
        in (v2, addResults r1 r2))
   \<and> success (snd (removeFileNotes h ops files v)) + skipped (snd (removeFileNotes h ops files v))
       + failed (snd (removeFileNotes h ops files v)) = length files"
proof -
  have c0: "createFileNotes h ops [] v = (v, noResult)"
    by (simp add: createFileNotes_def)
  have r0: "removeFileNotes h ops [] v = (v, noResult)"
    by (simp add: removeFileNotes_def)
  have ct: "success (snd (createFileNotes h ops files v))
              + skipped (snd (createFileNotes h ops files v))
              + failed (snd (createFileNotes h ops files v)) = length files"
    using createLoop_total [of h ops files v noResult]
    by (simp add: createFileNotes_def noResult_def)
  have rt: "success (snd (removeFileNotes h ops files v))
              + skipped (snd (removeFileNotes h ops files v))
              + failed (snd (removeFileNotes h ops files v)) = length files"
    using removeLoop_total [of h ops files v noResult]
    by (simp add: removeFileNotes_def noResult_def)
  show ?thesis
    using c0 r0 ct rt createFileNotes_single [of h ops f v] removeFileNotes_single [of h ops f v]
      createFileNotes_append [of h ops fs gs v] removeFileNotes_append [of h ops fs gs v]
    by (intro conjI) assumption+
qed

text \<open>
  The batch over three files where the first note exists and the storage fails on the
  second: one skipped, one failed, and the third is still created. Removing the three
  notes from the vault this leaves, with the storage failing on the third note.
\<close>

theorem batch_file_by_file_witness:
  "snd (createFileNotes (hostFailingAt ''docs/b.md'') defaultOps ([videoFile] @ [paperFile, imageFile])
          exampleVault) = \<lparr> success = 1, skipped = 1, failed = 1 \<rparr>
   \<and> fst (createFileNotes (hostFailingAt ''docs/b.md'') defaultOps
            ([videoFile] @ [paperFile, imageFile]) exampleVault) ''c.md''
       = Some (FileEntry ''![[c.png]]'')
   \<and> snd (removeFileNotes (hostFailingAt ''c.md'') defaultOps ([videoFile] @ [paperFile, imageFile])
            (exampleVault(''c.md'' \<mapsto> FileEntry ''![[c.png]]'')))
       = \<lparr> success = 1, skipped = 1, failed = 1 \<rparr>"
  using batch_file_by_file [of "hostFailingAt ''docs/b.md''" defaultOps exampleVault videoFile
      "[videoFile]" "[paperFile, imageFile]" "[]"]
    batch_file_by_file [of "hostFailingAt ''c.md''" defaultOps
      "exampleVault(''c.md'' \<mapsto> FileEntry ''![[c.png]]'')" videoFile
      "[videoFile]" "[paperFile, imageFile]" "[]"]
  by (simp add: createFileNotes_def removeFileNotes_def hostFailingAt_def defaultOps_def
        DEFAULT_SETTINGS_def exampleVault_def videoFile_def paperFile_def imageFile_def
        getNotePath_def getNoteContent_def placeholder_def getAbstractFileByPath_def
        vault_create_def vault_delete_def noResult_def addResults_def Let_def)

subsection \<open>Batch create, twice\<close>

lemma createLoop_keeps:
  "v p \<noteq> None \<Longrightarrow> fst (createLoop h ops files (v, r)) p \<noteq> None"
proof (induction files arbitrary: v r)
  case Nil
  then show ?case by simp
next
  case (Cons f fs)
  then show ?case
    by (auto simp: Let_def vault_create_def getAbstractFileByPath_def split: sum.split if_splits)
qed

lemma createLoop_failed_mono:
  "failed r \<le> failed (snd (createLoop h ops files (v, r)))"
proof (induction files arbitrary: v r)
  case Nil
  show ?case by simp
next
  case (Cons f fs)
  have a: "failed r \<le> failed (snd (createLoop h ops fs (w, r\<lparr>skipped := skipped r + 1\<rparr>)))" for w
    using Cons.IH [of "r\<lparr>skipped := skipped r + 1\<rparr>" w] by simp
  have b: "failed r \<le> failed (snd (createLoop h ops fs (w, r\<lparr>success := success r + 1\<rparr>)))" for w
    using Cons.IH [of "r\<lparr>success := success r + 1\<rparr>" w] by simp
  have c: "failed r \<le> failed (snd (createLoop h ops fs (w, r\<lparr>failed := failed r + 1\<rparr>)))" for w
    using Cons.IH [of "r\<lparr>failed := failed r + 1\<rparr>" w] by simp
  show ?case
    using a b c by (simp add: Let_def split: sum.split)
qed

lemma createLoop_all_present:
  "\<forall>f \<in> set files. v (getNotePath ops f) \<noteq> None \<Longrightarrow>
   createLoop h ops files (v, r) = (v, r\<lparr>skipped := skipped r + length files\<rparr>)"
  by (induction files arbitrary: r) (auto simp: Let_def getAbstractFileByPath_def)

lemma createLoop_no_failure:
  "failed (snd (createLoop h ops files (v, r))) = failed r \<Longrightarrow>
   \<forall>f \<in> set files. fst (createLoop h ops files (v, r)) (getNotePath ops f) \<noteq> None"
proof (induction files arbitrary: v r)
  case Nil
  show ?case by simp
next
  case (Cons f fs)
  let ?p = "getNotePath ops f"
  show ?case
  proof (cases "v ?p \<noteq> None")
    case True
    have step: "createLoop h ops (f # fs) (v, r) = createLoop h ops fs (v, r\<lparr>skipped := skipped r + 1\<rparr>)"
      using True by (simp add: Let_def getAbstractFileByPath_def)
    have "failed (snd (createLoop h ops fs (v, r\<lparr>skipped := skipped r + 1\<rparr>))) = failed (r\<lparr>skipped := skipped r + 1\<rparr>)"
      using Cons.prems step by simp
    from Cons.IH [OF this]
    have rest: "\<forall>g \<in> set fs. fst (createLoop h ops fs (v, r\<lparr>skipped := skipped r + 1\<rparr>)) (getNotePath ops g) \<noteq> None" .
    from True have "fst (createLoop h ops fs (v, r\<lparr>skipped := skipped r + 1\<rparr>)) ?p \<noteq> None"
      by (rule createLoop_keeps [of v ?p])
    with rest show ?thesis unfolding step by simp
  next
    case False
    show ?thesis
    proof (cases "createFails h v ?p")
      case True
      have step: "createLoop h ops (f # fs) (v, r) = createLoop h ops fs (v, r\<lparr>failed := failed r + 1\<rparr>)"
        using True False by (simp add: Let_def getAbstractFileByPath_def vault_create_def)
      have "failed r + 1 \<le> failed (snd (createLoop h ops (f # fs) (v, r)))"
        unfolding step using createLoop_failed_mono [of "r\<lparr>failed := failed r + 1\<rparr>" h ops fs v] by simp
      with Cons.prems show ?thesis by simp
    next
      case noFail: False
      define v' where "v' = v(?p \<mapsto> FileEntry (getNoteContent ops f))"
      have step: "createLoop h ops (f # fs) (v, r) = createLoop h ops fs (v', r\<lparr>success := success r + 1\<rparr>)"
        using noFail False by (simp add: Let_def getAbstractFileByPath_def vault_create_def v'_def)
      have "failed (snd (createLoop h ops fs (v', r\<lparr>success := success r + 1\<rparr>))) = failed (r\<lparr>success := success r + 1\<rparr>)"
        using Cons.prems step by simp
      from Cons.IH [OF this]
      have rest: "\<forall>g \<in> set fs. fst (createLoop h ops fs (v', r\<lparr>success := success r + 1\<rparr>)) (getNotePath ops g) \<noteq> None" .
      have "v' ?p \<noteq> None" by (simp add: v'_def)
      then have "fst (createLoop h ops fs (v', r\<lparr>success := success r + 1\<rparr>)) ?p \<noteq> None"
        by (rule createLoop_keeps [of v' ?p])
      with rest show ?thesis unfolding step by simp
    qed
  qed
qed

text \<open>
  Claim C6, as amended. When the first batch create over a list reports no failure, a second
  batch create over the same list on the vault the first one left (with any host) changes
  nothing and reports \<open>success = 0\<close>, \<open>skipped = N\<close>, \<open>failed = 0\<close>.
\<close>

theorem create_twice_skips_all:
  assumes "failed (snd (createFileNotes h ops files v)) = 0"
  shows "createFileNotes h' ops files (fst (createFileNotes h ops files v))
           = (fst (createFileNotes h ops files v),
              \<lparr> success = 0, skipped = length files, failed = 0 \<rparr>)"
proof -
  have "failed (snd (createLoop h ops files (v, noResult))) = failed noResult"
    using assms by (simp add: createFileNotes_def noResult_def)
  from createLoop_no_failure [OF this]
  have "\<forall>f \<in> set files. fst (createFileNotes h ops files v) (getNotePath ops f) \<noteq> None"
    by (simp add: createFileNotes_def)
  from createLoop_all_present [OF this, of h' noResult]
  show ?thesis by (simp add: createFileNotes_def noResult_def)
qed

theorem create_twice_skips_all_witness:
  "failed (snd (createFileNotes reliableHost defaultOps exampleFiles exampleVault)) = 0
   \<and> snd (createFileNotes reliableHost defaultOps exampleFiles
            (fst (createFileNotes reliableHost defaultOps exampleFiles exampleVault)))
       = \<lparr> success = 0, skipped = 3, failed = 0 \<rparr>"
proof -
  have a: "failed (snd (createFileNotes reliableHost defaultOps exampleFiles exampleVault)) = 0"
    by (simp add: createFileNotes_def reliableHost_def defaultOps_def
        DEFAULT_SETTINGS_def exampleVault_def exampleFiles_def videoFile_def paperFile_def imageFile_def
        getNotePath_def getNoteContent_def placeholder_def getAbstractFileByPath_def
        vault_create_def noResult_def Let_def)
  show ?thesis
    using a create_twice_skips_all [OF a, of reliableHost] by (simp add: exampleFiles_def)
qed

text \<open>
  Claim C6 as stated has no condition on the first call. With a storage that fails on
  \<^verbatim>\<open>docs/b.md\<close> the first call fails on that file, and the second call tries it again:
  it reports two skipped files out of three and one failure.
\<close>

theorem create_twice_counterexample:
  "\<not> (success (snd (createFileNotes (hostFailingAt ''docs/b.md'') defaultOps exampleFiles
            (fst (createFileNotes (hostFailingAt ''docs/b.md'') defaultOps exampleFiles exampleVault)))) = 0
     \<and> skipped (snd (createFileNotes (hostFailingAt ''docs/b.md'') defaultOps exampleFiles
            (fst (createFileNotes (hostFailingAt ''docs/b.md'') defaultOps exampleFiles exampleVault))))
         = length exampleFiles)"
  by (simp add: createFileNotes_def hostFailingAt_def defaultOps_def
        DEFAULT_SETTINGS_def exampleVault_def exampleFiles_def videoFile_def paperFile_def imageFile_def
        getNotePath_def getNoteContent_def placeholder_def getAbstractFileByPath_def
        vault_create_def noResult_def Let_def)

subsection \<open>Note path\<close>

lemma replaceExtension_no_dot:
  "CHR ''.'' \<notin> set s \<Longrightarrow> replaceExtension s = s"
  by (induction s) auto

lemma replaceExtension_trailing_dot:
  "replaceExtension (stem @ ''.'') = stem @ ''.''"
  by (induction stem) auto

lemma replaceExtension_suffix:
  "e \<noteq> [] \<Longrightarrow> CHR ''.'' \<notin> set e \<Longrightarrow> replaceExtension (stem @ CHR ''.'' # e) = stem @ ''.md''"
  by (induction stem) auto

text \<open>
  Where the path ends in a dot followed by a non-empty run of characters without a dot,
  that run is replaced: the note path ends in \<^verbatim>\<open>.md\<close>, and it is the source path exactly
  when the run was \<^verbatim>\<open>md\<close> already. A path without any dot is returned as it is.
\<close>

lemma getNotePath_extension:
  assumes "path file = stem @ ''.'' @ e" "e \<noteq> []" "CHR ''.'' \<notin> set e"
  shows "getNotePath ops file = stem @ ''.md''"
    and "getNotePath ops file = path file \<longleftrightarrow> e = ''md''"
  using assms replaceExtension_suffix [of e stem] by (auto simp: getNotePath_def)

lemma getNotePath_no_dot:
  "CHR ''.'' \<notin> set (path file) \<Longrightarrow> getNotePath ops file = path file"
  by (simp add: getNotePath_def replaceExtension_no_dot)

text \<open>
  Claim C2 at the file \<^verbatim>\<open>dir.v2/LICENSE\<close>. The file has no extension and is eligible for
  the bulk operations, yet its note path is not its own path: the run after the last dot
  of the path spans the slash, so the note path is \<^verbatim>\<open>dir.md\<close>, a path outside the file's
  folder.
\<close>

theorem getNotePath_dotted_folder:
  "extension licenceFile = []
   \<and> isEligibleFile (AFile licenceFile)
   \<and> getNotePath defaultOps licenceFile = ''dir.md''
   \<and> getNotePath defaultOps licenceFile \<noteq> path licenceFile"
  by (simp add: licenceFile_def getNotePath_def EXCLUDED_EXTENSIONS_def toLowerCase_def)

lemma getNotePath_ignores_settings:
  "getNotePath ops file = getNotePath ops' file"
  by (simp add: getNotePath_def)

text \<open>
  Claim C3, as amended. The note path does not depend on the notes-folder setting: for
  every value of it (\<^verbatim>\<open>./X\<close>, \<^verbatim>\<open>X\<close> or empty), the note of a source file whose path ends
  in an extension is the source path with that extension replaced by \<^verbatim>\<open>md\<close>, beside the
  source.
\<close>

theorem getNotePath_beside_source:
  "path src = stem @ ''.'' @ e \<Longrightarrow> e \<noteq> [] \<Longrightarrow> CHR ''.'' \<notin> set e \<Longrightarrow> CHR ''/'' \<notin> set e \<Longrightarrow>
   getNotePath (ops\<lparr>settings := (settings ops)\<lparr>notesFolder := nf\<rparr>\<rparr>) src = stem @ ''.md''"
proof -
  assume a: "path src = stem @ ''.'' @ e" and b: "e \<noteq> []" and c: "CHR ''.'' \<notin> set e"
  show ?thesis using a b c by (rule getNotePath_extension(1))
qed

theorem getNotePath_beside_source_witness:
  "path paperFile = ''docs/b'' @ ''.'' @ ''pdf''
   \<and> getNotePath (defaultOps\<lparr>settings := (settings defaultOps)\<lparr>notesFolder := ''Notes''\<rparr>\<rparr>) paperFile
       = ''docs/b.md''
   \<and> getNotePath (defaultOps\<lparr>settings := (settings defaultOps)\<lparr>notesFolder := ''./Notes''\<rparr>\<rparr>) paperFile
       = ''docs/b.md''"
proof -
  have a: "path paperFile = ''docs/b'' @ ''.'' @ ''pdf''" by (simp add: paperFile_def)
  have b: "''pdf'' \<noteq> []" "CHR ''.'' \<notin> set ''pdf''" "CHR ''/'' \<notin> set ''pdf''" by simp_all
  show ?thesis
    using a getNotePath_beside_source [OF a b, where ops = defaultOps and nf = "''Notes''"]
      getNotePath_beside_source [OF a b, where ops = defaultOps and nf = "''./Notes''"]
    by simp
qed

text \<open>
  Claim C3 as stated places the note of \<^verbatim>\<open>docs/b.pdf\<close> under \<^verbatim>\<open>Notes/\<close> when the setting
  is \<^verbatim>\<open>Notes\<close>, and under \<^verbatim>\<open>docs/Notes/\<close> when it is \<^verbatim>\<open>./Notes\<close>. The note path is
  \<^verbatim>\<open>docs/b.md\<close> both times, in neither folder.
\<close>

theorem notesFolder_counterexample:
  "getNotePath \<lparr>settings = DEFAULT_SETTINGS\<lparr>notesFolder := ''Notes''\<rparr>\<rparr> paperFile = ''docs/b.md''
   \<and> \<not> startsWith (getNotePath \<lparr>settings = DEFAULT_SETTINGS\<lparr>notesFolder := ''Notes''\<rparr>\<rparr> paperFile)
          ''Notes/''
   \<and> getNotePath \<lparr>settings = DEFAULT_SETTINGS\<lparr>notesFolder := ''./Notes''\<rparr>\<rparr> paperFile = ''docs/b.md''
   \<and> \<not> startsWith (getNotePath \<lparr>settings = DEFAULT_SETTINGS\<lparr>notesFolder := ''./Notes''\<rparr>\<rparr> paperFile)
          ''docs/Notes/''"
  by (simp add: getNotePath_def paperFile_def startsWith_def)

subsection \<open>Note content\<close>

lemma getSubstitution_plain:
  "CHR ''$'' \<notin> set r \<Longrightarrow> getSubstitution m b a r = r"
  by (induction m b a r rule: getSubstitution.induct) auto

lemma replacePlaceholder_plain:
  "CHR ''$'' \<notin> set r \<Longrightarrow> replacePlaceholder r b s = replaceLiterally r s"
  by (induction r b s rule: replacePlaceholder.induct) (auto simp: getSubstitution_plain)

text \<open>
  For a file name without a dollar sign the content is the template with every
  placeholder replaced by the name as it is; the heading template with \<^verbatim>\<open>report.pdf\<close>
  gives \<^verbatim>\<open># report.pdf\<close>.
\<close>

lemma getNoteContent_plain:
  "CHR ''$'' \<notin> set (name file) \<Longrightarrow>
   getNoteContent ops file = replaceLiterally (name file) (noteTemplate (settings ops))"
  by (simp add: getNoteContent_def replacePlaceholder_plain)

lemma getNoteContent_report:
  "getNoteContent headingOps reportFile = ''# report.pdf''"
  by (simp add: getNoteContent_def headingOps_def reportFile_def placeholder_def)

text \<open>
  Claim C4 at the file \<^verbatim>\<open>Cash$$.pdf\<close> with the heading template. The content is
  \<^verbatim>\<open># Cash$.pdf\<close>: the two dollar signs of the name are read as a replacement pattern
  and come out as one, where the literal replacement gives \<^verbatim>\<open># Cash$$.pdf\<close>.
\<close>

theorem getNoteContent_dollar:
  "getNoteContent headingOps cashFile = ''# Cash$.pdf''
   \<and> replaceLiterally (name cashFile) (noteTemplate (settings headingOps)) = ''# Cash$$.pdf''"
  by (simp add: getNoteContent_def headingOps_def cashFile_def placeholder_def)

subsection \<open>Configured extensions\<close>

lemma split_comma_nonempty: "split_comma s \<noteq> []"
  by (induction s) (auto split: list.split)

lemma joinComma_split_comma: "joinComma (split_comma s) = s"
proof (induction s)
  case Nil
  show ?case by simp
next
  case (Cons c cs)
  obtain w ws where sp: "split_comma cs = w # ws"
    using split_comma_nonempty [of cs] by (cases "split_comma cs") auto
  show ?case
  proof (cases "c = CHR '',''")
    case True
    with Cons sp show ?thesis by simp
  next
    case False
    with Cons sp show ?thesis by (cases ws) auto
  qed
qed

lemma split_comma_no_comma: "x \<in> set (split_comma s) \<Longrightarrow> CHR '','' \<notin> set x"
proof (induction s arbitrary: x)
  case Nil
  then show ?case by simp
next
  case (Cons c cs)
  obtain w ws where sp: "split_comma cs = w # ws"
    using split_comma_nonempty [of cs] by (cases "split_comma cs") auto
  from Cons.IH [unfolded sp] have w: "CHR '','' \<notin> set w" and ws: "\<And>y. y \<in> set ws \<Longrightarrow> CHR '','' \<notin> set y"
    by auto
  show ?case
    using Cons.prems w ws sp by (auto split: if_splits)
qed

lemma split_comma_joinComma:
  "xs \<noteq> [] \<Longrightarrow> \<forall>x \<in> set xs. CHR '','' \<notin> set x \<Longrightarrow> split_comma (joinComma xs) = xs"
proof (induction xs rule: joinComma.induct)
  case 1
  then show ?case by simp
next
  case (2 x)
  then have "CHR '','' \<notin> set x" by simp
  then have "split_comma x = [x]"
    by (induction x) auto
  then show ?case by simp
next
  case (3 x y ys)
  then have IH: "split_comma (joinComma (y # ys)) = y # ys" by simp
  from 3 have "CHR '','' \<notin> set x" by simp
  then have "split_comma (x @ CHR '','' # joinComma (y # ys)) = x # y # ys"
    using IH by (induction x) auto
  then show ?case by simp
qed

lemma toLowerChar_not_upper: "toLowerChar c \<notin> upperCaseLetters"
  by (simp add: toLowerChar_def upperCaseLetters_def)

lemma toLowerChar_space: "isWhiteSpace (toLowerChar c) = isWhiteSpace c"
  by (simp add: toLowerChar_def isWhiteSpace_def)

lemma toLowerChar_comma:
  "toLowerChar c = CHR '','' \<longleftrightarrow> c = CHR '',''"
  "CHR '','' = toLowerChar c \<longleftrightarrow> c = CHR '',''"
  by (auto simp: toLowerChar_def)


lemma last_dropWhile_nonempty:
  "dropWhile P xs \<noteq> [] \<Longrightarrow> last (dropWhile P xs) = last xs"
  by (induction xs) (auto split: if_splits)

lemma trim_ends:
  assumes "trim s \<noteq> []"
  shows "\<not> isWhiteSpace (hd (trim s)) \<and> \<not> isWhiteSpace (last (trim s))"
proof -
  let ?t = "dropWhile isWhiteSpace s"
  let ?u = "dropWhile isWhiteSpace (rev ?t)"
  have u: "?u \<noteq> []" using assms by (simp add: trim_def)
  have t: "?t \<noteq> []"
  proof
    assume "?t = []"
    then have "?u = []" by (simp only: rev.simps dropWhile.simps)
    with u show False by (simp only:)
  qed
  have "\<not> isWhiteSpace (hd ?u)" using u by (rule hd_dropWhile)
  then have l: "\<not> isWhiteSpace (last (trim s))"
    using u by (simp add: trim_def last_rev)
  have "last ?u = last (rev ?t)" using u by (rule last_dropWhile_nonempty)
  also have "\<dots> = hd ?t" using t by (simp add: last_rev)
  finally have "hd (trim s) = hd ?t" using u by (simp add: trim_def hd_rev)
  moreover have "\<not> isWhiteSpace (hd ?t)" using t by (rule hd_dropWhile)
  ultimately show ?thesis using l by simp
qed

lemma trim_decomposition:
  "\<exists>a b. s = a @ trim s @ b \<and> (\<forall>c \<in> set a. isWhiteSpace c) \<and> (\<forall>c \<in> set b. isWhiteSpace c)"
proof -
  let ?t = "dropWhile isWhiteSpace s"
  let ?b = "rev (takeWhile isWhiteSpace (rev ?t))"
  have "rev (takeWhile isWhiteSpace (rev ?t) @ dropWhile isWhiteSpace (rev ?t)) = rev (rev ?t)"
    by (simp only: takeWhile_dropWhile_id)
  then have "rev (dropWhile isWhiteSpace (rev ?t)) @ ?b = ?t"
    by (simp only: rev_append rev_rev_ident)
  then have t: "?t = trim s @ ?b"
    by (simp only: trim_def)
  have "s = takeWhile isWhiteSpace s @ ?t" by simp
  with t have "s = takeWhile isWhiteSpace s @ trim s @ ?b" by simp
  moreover have "\<forall>c \<in> set (takeWhile isWhiteSpace s). isWhiteSpace c"
    by (auto dest: set_takeWhileD)
  moreover have "\<forall>c \<in> set ?b. isWhiteSpace c"
    by (auto dest: set_takeWhileD)
  ultimately show ?thesis by blast
qed

lemma trim_subset: "set (trim s) \<subseteq> set s"
proof -
  have "set (trim s) \<subseteq> set (dropWhile isWhiteSpace s)"
    unfolding trim_def using set_dropWhileD [of _ isWhiteSpace "rev (dropWhile isWhiteSpace s)"]
    by auto
  also have "\<dots> \<subseteq> set s" by (auto dest: set_dropWhileD)
  finally show ?thesis .
qed

lemma toLowerCase_props:
  "toLowerCase s = [] \<longleftrightarrow> s = []"
  "set (toLowerCase s) \<inter> upperCaseLetters = {}"
  "s \<noteq> [] \<Longrightarrow> hd (toLowerCase s) = toLowerChar (hd s)"
  "s \<noteq> [] \<Longrightarrow> last (toLowerCase s) = toLowerChar (last s)"
  "CHR '','' \<in> set (toLowerCase s) \<longleftrightarrow> CHR '','' \<in> set s"
  by (auto simp: toLowerCase_def toLowerChar_not_upper hd_map last_map toLowerChar_comma image_iff)

lemma set_parseExtensions:
  "set (parseExtensions raw)
     = {e. \<exists>x \<in> set (split_comma raw). e = toLowerCase (trim x) \<and> e \<noteq> [] \<and> e \<noteq> ''md''}"
  by (auto simp: parseExtensions_def)

lemma parseExtensions_entry:
  assumes "e \<in> set (parseExtensions raw)"
  shows "e \<noteq> [] \<and> e \<noteq> ''md'' \<and> CHR '','' \<notin> set e \<and> set e \<inter> upperCaseLetters = {}
         \<and> \<not> isWhiteSpace (hd e) \<and> \<not> isWhiteSpace (last e)"
proof -
  from assms obtain x where x: "x \<in> set (split_comma raw)" and e: "e = toLowerCase (trim x)"
    and ne: "e \<noteq> []" and md: "e \<noteq> ''md''"
    by (auto simp: set_parseExtensions)
  have t: "trim x \<noteq> []" using ne e by (simp add: toLowerCase_props)
  have "CHR '','' \<notin> set (trim x)"
    using split_comma_no_comma [OF x] trim_subset [of x] by auto
  then have c: "CHR '','' \<notin> set e" by (simp add: e toLowerCase_props)
  have "\<not> isWhiteSpace (hd e) \<and> \<not> isWhiteSpace (last e)"
    using trim_ends [OF t] t by (simp add: e toLowerCase_props toLowerChar_space)
  with ne md c show ?thesis by (simp add: e toLowerCase_props)
qed

lemma consistent_getExtensions:
  "consistent p \<Longrightarrow> fst (getExtensions p) = set (parseExtensions (fileExtensions (settings p)))
     \<and> consistent (snd (getExtensions p))
     \<and> settings (snd (getExtensions p)) = settings p
     \<and> excludedFilesSet (snd (getExtensions p)) = excludedFilesSet p
     \<and> excludedFoldersSet (snd (getExtensions p)) = excludedFoldersSet p"
  by (auto simp: consistent_def getExtensions_def Let_def split: option.split)

lemma consistent_loadSettings: "consistent (loadSettings s)"
  by (simp add: consistent_def loadSettings_def rebuildExclusionSets_def)

lemma consistent_saveSettings: "consistent (fst (saveSettings True p))"
  by (simp add: consistent_def saveSettings_def rebuildExclusionSets_def)

text \<open>
  Claim C7. In every consistent plugin state (after the settings were loaded or saved,
  whether the cache is filled or not) \<^verbatim>\<open>getExtensions\<close> returns the set of the entries
  between the commas of the raw string, each trimmed and put in lower case, without the
  empty ones and without \<^verbatim>\<open>md\<close>. Every member is non-empty, is not \<^verbatim>\<open>md\<close>, holds no
  comma and no letter that has a lower-case form, and neither starts nor ends with white
  space (the no-break space included). The function is total: no input raises an error.
\<close>

theorem getExtensions_normalises:
  "consistent p \<Longrightarrow>
   fst (getExtensions p)
     = {e. \<exists>x \<in> set (split_comma (fileExtensions (settings p))).
             e = toLowerCase (trim x) \<and> e \<noteq> [] \<and> e \<noteq> ''md''}
   \<and> (\<forall>e \<in> fst (getExtensions p).
         e \<noteq> [] \<and> e \<noteq> ''md'' \<and> CHR '','' \<notin> set e \<and> set e \<inter> upperCaseLetters = {}
         \<and> \<not> isWhiteSpace (hd e) \<and> \<not> isWhiteSpace (last e))
   \<and> consistent (snd (getExtensions p))"
proof -
  assume c: "consistent p"
  let ?raw = "fileExtensions (settings p)"
  have eq: "fst (getExtensions p) = set (parseExtensions ?raw)"
    and c': "consistent (snd (getExtensions p))"
    using consistent_getExtensions [OF c] by simp_all
  have "fst (getExtensions p)
          = {e. \<exists>x \<in> set (split_comma ?raw). e = toLowerCase (trim x) \<and> e \<noteq> [] \<and> e \<noteq> ''md''}"
    unfolding eq by (rule set_parseExtensions)
  moreover have "\<forall>e \<in> fst (getExtensions p).
         e \<noteq> [] \<and> e \<noteq> ''md'' \<and> CHR '','' \<notin> set e \<and> set e \<inter> upperCaseLetters = {}
         \<and> \<not> isWhiteSpace (hd e) \<and> \<not> isWhiteSpace (last e)"
    unfolding eq using parseExtensions_entry [of _ ?raw] by blast
  ultimately show ?thesis using c' by blast
qed

text \<open>
  A raw string with surrounding blanks, mixed case, an empty entry, \<^verbatim>\<open>md\<close>, a repeated
  entry and a last entry between two no-break spaces.
\<close>

theorem getExtensions_normalises_witness:
  "consistent (loadSettings messySettings)
   \<and> fst (getExtensions (loadSettings messySettings)) = {''mp4'', ''pdf'', ''png'', ''jpg''}"
proof -
  have c: "consistent (loadSettings messySettings)" by (rule consistent_loadSettings)
  have "fst (getExtensions (loadSettings messySettings)) = {''mp4'', ''pdf'', ''png'', ''jpg''}"
    using getExtensions_normalises [OF c]
    by (simp add: getExtensions_def loadSettings_def rebuildExclusionSets_def messySettings_def
          DEFAULT_SETTINGS_def parseExtensions_def trim_def isWhiteSpace_def toLowerCase_def
          toLowerChar_def Let_def insert_commute)
  with c show ?thesis by simp
qed

subsection \<open>Selection for batch create\<close>

lemma isInExcludedFolder_iff:
  "isInExcludedFolder p filePath
     \<longleftrightarrow> (\<exists>folder \<in> set (excludedFolders (settings p)). startsWith filePath (folder @ ''/''))"
  by (simp add: isInExcludedFolder_def list_ex_iff)

lemma shouldCreateNoteFor_file:
  assumes "consistent p"
  shows "fst (shouldCreateNoteFor p (AFile file)) \<longleftrightarrow>
           toLowerCase (extension file) \<notin> EXCLUDED_EXTENSIONS
           \<and> toLowerCase (extension file) \<in> fst (getExtensions p)
           \<and> path file \<notin> set (excludedFiles (settings p))
           \<and> \<not> (\<exists>folder \<in> set (excludedFolders (settings p)).
                   startsWith (path file) (folder @ ''/''))"
proof -
  obtain exts p' where g: "getExtensions p = (exts, p')" by (cases "getExtensions p")
  from consistent_getExtensions [OF assms] g
  have s: "settings p' = settings p" and f: "excludedFilesSet p' = excludedFilesSet p" by simp_all
  have fs: "excludedFilesSet p = set (excludedFiles (settings p))"
    using assms by (simp add: consistent_def)
  have fo: "isInExcludedFolder p' x = isInExcludedFolder p x" for x
    by (simp add: isInExcludedFolder_def s)
  show ?thesis
    by (auto simp: g f fs s isInExcludedFolder_iff)
qed

text \<open>
  Claim C5. In a consistent plugin state \<^verbatim>\<open>shouldCreateNoteFor\<close> answers true exactly for a
  file whose extension, in lower case, is none of \<^verbatim>\<open>md\<close>, \<^verbatim>\<open>canvas\<close>, \<^verbatim>\<open>base\<close> and is in
  the configured extension set, whose path is not in the list of excluded files, and for
  which no excluded folder \<open>folder\<close> has \<^verbatim>\<open>path.startsWith(folder + '/')\<close>. So a file at
  \<^verbatim>\<open>A/B/rest\<close> is not selected when \<^verbatim>\<open>A\<close> or \<^verbatim>\<open>A/B\<close> is an excluded folder.
\<close>

theorem shouldCreateNoteFor_iff:
  "consistent p \<Longrightarrow>
   (fst (shouldCreateNoteFor p item) \<longleftrightarrow>
      (\<exists>file. item = AFile file
         \<and> toLowerCase (extension file) \<notin> {''md'', ''canvas'', ''base''}
         \<and> toLowerCase (extension file) \<in> fst (getExtensions p)
         \<and> path file \<notin> set (excludedFiles (settings p))
         \<and> \<not> (\<exists>folder \<in> set (excludedFolders (settings p)).
                 startsWith (path file) (folder @ ''/''))))
   \<and> ((folderA \<in> set (excludedFolders (settings p))
         \<or> folderA @ ''/'' @ folderB \<in> set (excludedFolders (settings p)))
        \<longrightarrow> \<not> fst (shouldCreateNoteFor p
                     (AFile (src\<lparr>path := folderA @ ''/'' @ folderB @ ''/'' @ rest\<rparr>))))"
proof -
  assume c: "consistent p"
  have a: "fst (shouldCreateNoteFor p item) \<longleftrightarrow>
      (\<exists>file. item = AFile file
         \<and> toLowerCase (extension file) \<notin> {''md'', ''canvas'', ''base''}
         \<and> toLowerCase (extension file) \<in> fst (getExtensions p)
         \<and> path file \<notin> set (excludedFiles (settings p))
         \<and> \<not> (\<exists>folder \<in> set (excludedFolders (settings p)).
                 startsWith (path file) (folder @ ''/'')))"
  proof (cases item)
    case (AFile f)
    show ?thesis
      unfolding AFile using shouldCreateNoteFor_file [OF c, of f]
      by (simp add: EXCLUDED_EXTENSIONS_def)
  next
    case (AFolder d)
    then show ?thesis by simp
  qed
  have b: "\<not> fst (shouldCreateNoteFor p
                     (AFile (src\<lparr>path := folderA @ ''/'' @ folderB @ ''/'' @ rest\<rparr>)))"
    if "folderA \<in> set (excludedFolders (settings p))
         \<or> folderA @ ''/'' @ folderB \<in> set (excludedFolders (settings p))"
  proof -
    let ?q = "folderA @ ''/'' @ folderB @ ''/'' @ rest"
    have "startsWith ?q (folderA @ ''/'')" by (simp add: startsWith_def)
    moreover have "startsWith ?q ((folderA @ ''/'' @ folderB) @ ''/'')" by (simp add: startsWith_def)
    ultimately have "\<exists>folder \<in> set (excludedFolders (settings p)). startsWith ?q (folder @ ''/'')"
      using that by blast
    then show ?thesis
      using shouldCreateNoteFor_file [OF c, of "src\<lparr>path := ?q\<rparr>"] by simp
  qed
  from a b show ?thesis by blast
qed

text \<open>
  With the extensions \<^verbatim>\<open>mp4, pdf\<close>, the excluded file \<^verbatim>\<open>x.pdf\<close> and the excluded folder
  \<^verbatim>\<open>A\<close>: \<^verbatim>\<open>docs/b.pdf\<close> is selected; \<^verbatim>\<open>A/B/c.mp4\<close>, \<^verbatim>\<open>x.pdf\<close> and \<^verbatim>\<open>c.png\<close> are not.
\<close>

theorem shouldCreateNoteFor_iff_witness:
  "consistent (loadSettings exclusionSettings)
   \<and> fst (shouldCreateNoteFor (loadSettings exclusionSettings) (AFile paperFile))
   \<and> \<not> fst (shouldCreateNoteFor (loadSettings exclusionSettings) (AFile nestedFile))
   \<and> \<not> fst (shouldCreateNoteFor (loadSettings exclusionSettings) (AFile excludedFile))
   \<and> \<not> fst (shouldCreateNoteFor (loadSettings exclusionSettings) (AFile imageFile))"
proof -
  have c: "consistent (loadSettings exclusionSettings)" by (rule consistent_loadSettings)
  have ev: "fst (getExtensions (loadSettings exclusionSettings)) = {''mp4'', ''pdf''}"
    by (simp add: getExtensions_def loadSettings_def rebuildExclusionSets_def exclusionSettings_def
          DEFAULT_SETTINGS_def parseExtensions_def trim_def isWhiteSpace_def toLowerCase_def
          toLowerChar_def Let_def insert_commute)
  have st: "excludedFiles (settings (loadSettings exclusionSettings)) = [''x.pdf'']"
    "excludedFolders (settings (loadSettings exclusionSettings)) = [''A'']"
    by (simp_all add: loadSettings_def rebuildExclusionSets_def exclusionSettings_def)
  show ?thesis
    using c
      shouldCreateNoteFor_iff [OF c, where item = "AFile paperFile" and folderA = "''A''"
        and folderB = "''B''" and src = nestedFile and rest = "''c.mp4''"]
      shouldCreateNoteFor_iff [OF c, where item = "AFile excludedFile"]
      shouldCreateNoteFor_iff [OF c, where item = "AFile imageFile"]
    by (simp add: ev st paperFile_def nestedFile_def excludedFile_def imageFile_def toLowerCase_def
          toLowerChar_def startsWith_def)
qed

subsection \<open>Exclusion toggles\<close>



text \<open>A toggle reports the rejection of the write, and nothing else.\<close>

lemma toggle_outcome:
  "snd (toggleFileExclusion p f e saved) = (if saved then Inr () else Inl StorageFailure)"
  "snd (toggleFolderExclusion p d e saved) = (if saved then Inr () else Inl StorageFailure)"
  by (simp_all add: toggleFileExclusion_def toggleFolderExclusion_def saveSettings_def)







subsection \<open>Hidden files\<close>

lemma updateItems_eq:
  "updateItems m v items n =
     (map (itemAfterPass m v) items, n + length (filter (\<lambda>item. hiddenByPass m v (fst item)) items))"
proof (induction items arbitrary: n)
  case Nil
  show ?case by simp
next
  case (Cons a items)
  obtain q b where a: "a = (q, b)" by (cases a)
  show ?case
    unfolding a
    by (auto simp: Let_def Cons.IH itemAfterPass_def hiddenByPass_def getAbstractFileByPath_def)
qed

lemma itemsOf_update:
  "itemsOf (snd (update m v e)) =
     (if \<not> hideFilesWithNotes (settings m) \<and> \<not> hasHiddenFiles m then itemsOf e
      else map (itemAfterPass m v) (itemsOf e))"
  by (simp add: update_def itemsOf_def updateItems_eq split: option.split)

lemma hasHiddenFiles_update:
  "hasHiddenFiles (fst (update m v e)) =
     (if (\<not> hideFilesWithNotes (settings m) \<and> \<not> hasHiddenFiles m) \<or> e = None
          \<or> (\<exists>view. e = Some view \<and> fileItems view = None)
      then hasHiddenFiles m
      else (\<exists>item \<in> set (itemsOf e). hiddenByPass m v (fst item)))"
proof (cases e)
  case None
  then show ?thesis by (simp add: update_def)
next
  case (Some view)
  show ?thesis
  proof (cases "fileItems view")
    case None
    with Some show ?thesis by (simp add: update_def)
  next
    case (Some items)
    have "0 < length (filter (\<lambda>item. hiddenByPass m v (fst item)) items)
            \<longleftrightarrow> (\<exists>item \<in> set items. hiddenByPass m v (fst item))"
      by (simp add: filter_empty_conv)
    with Some \<open>e = Some view\<close> show ?thesis
      by (simp add: update_def itemsOf_def updateItems_eq)
  qed
qed

lemma settings_update: "settings (fst (update m v e)) = settings m"
  by (simp add: update_def updateItems_eq split: option.split)

text \<open>
  Claim C9. Between passes only the manager sets the mark, so only entries whose path the
  pattern changes carry it, and the manager's flag is set whenever an entry is marked
  (\<open>marksTracked\<close>; it holds when nothing is marked, and each pass keeps it). After a pass
  with the hide setting on, an entry of the explorer is marked exactly when its candidate
  note path differs from its own path and something exists at that path. After a pass
  with the setting off, no entry is marked. A pass changes no path.
\<close>

theorem update_marks:
  "marksTracked m e \<Longrightarrow>
   (hideFilesWithNotes (settings m) \<longrightarrow>
      (\<forall>(p, marked) \<in> set (itemsOf (snd (update m v e))).
          marked \<longleftrightarrow> replaceExtension p \<noteq> p \<and> getAbstractFileByPath v (replaceExtension p) \<noteq> None))
   \<and> (\<not> hideFilesWithNotes (settings m) \<longrightarrow>
        (\<forall>(p, marked) \<in> set (itemsOf (snd (update m v e))). \<not> marked))
   \<and> map fst (itemsOf (snd (update m v e))) = map fst (itemsOf e)
   \<and> marksTracked (fst (update m v e)) (snd (update m v e))"
proof -
  assume t: "marksTracked m e"
  from t have own: "\<And>p marked. (p, marked) \<in> set (itemsOf e) \<Longrightarrow> marked \<Longrightarrow> replaceExtension p \<noteq> p"
    and flag: "\<And>p. (p, True) \<in> set (itemsOf e) \<Longrightarrow> hasHiddenFiles m"
    by (auto simp: marksTracked_def)
  have on: "marked \<longleftrightarrow> replaceExtension p \<noteq> p \<and> getAbstractFileByPath v (replaceExtension p) \<noteq> None"
    if "hideFilesWithNotes (settings m)" "(p, marked) \<in> set (itemsOf (snd (update m v e)))" for p marked
    using that own
    by (auto simp: itemsOf_update itemAfterPass_def hiddenByPass_def getAbstractFileByPath_def
          split: if_splits)
  have off: "\<not> marked"
    if "\<not> hideFilesWithNotes (settings m)" "(p, marked) \<in> set (itemsOf (snd (update m v e)))" for p marked
  proof (cases "hasHiddenFiles m")
    case True
    with that own show ?thesis
      by (auto simp: itemsOf_update itemAfterPass_def hiddenByPass_def split: if_splits)
  next
    case False
    with that have "(p, marked) \<in> set (itemsOf e)" by (simp add: itemsOf_update)
    with flag False show ?thesis by (cases marked) auto
  qed
  have paths: "map fst (itemsOf (snd (update m v e))) = map fst (itemsOf e)"
    by (simp add: itemsOf_update itemAfterPass_def)
  have tracked: "marksTracked (fst (update m v e)) (snd (update m v e))"
  proof (cases "\<not> hideFilesWithNotes (settings m) \<and> \<not> hasHiddenFiles m")
    case True
    then show ?thesis using t by (simp add: update_def)
  next
    case False
    have a: "replaceExtension p \<noteq> p" if "(p, True) \<in> set (itemsOf (snd (update m v e)))" for p
      using that own False
      by (auto simp: itemsOf_update itemAfterPass_def hiddenByPass_def split: if_splits)
    have b: "hasHiddenFiles (fst (update m v e))" if "(p, True) \<in> set (itemsOf (snd (update m v e)))" for p
    proof (cases "e = None \<or> (\<exists>view. e = Some view \<and> fileItems view = None)")
      case True
      then have "itemsOf e = []" by (auto simp: itemsOf_def)
      with that show ?thesis by (simp add: itemsOf_update split: if_splits)
    next
      case noItems: False
      from that False obtain item where i: "item \<in> set (itemsOf e)"
        and ip: "itemAfterPass m v item = (p, True)"
        by (auto simp: itemsOf_update)
      have "hiddenByPass m v (fst item)"
      proof (cases "replaceExtension (fst item) = fst item")
        case True
        with ip have "item = (p, True)" by (simp add: itemAfterPass_def)
        with i own [of p True] True show ?thesis by simp
      next
        case False
        with ip show ?thesis by (auto simp: itemAfterPass_def)
      qed
      with i False noItems show ?thesis
        by (auto simp: hasHiddenFiles_update)
    qed
    show ?thesis
      unfolding marksTracked_def using a b by auto
  qed
  from on off paths tracked show ?thesis by blast
qed

lemma marksTracked_initial:
  "\<forall>(p, marked) \<in> set (itemsOf e). \<not> marked \<Longrightarrow> marksTracked (newHiddenFilesManager s) e"
  by (auto simp: marksTracked_def)


text \<open>
  The explorer shows \<^verbatim>\<open>video.mp4\<close>, \<^verbatim>\<open>video.md\<close> and the folder \<^verbatim>\<open>notes\<close>. With the
  setting on, the pass marks \<^verbatim>\<open>video.mp4\<close> only. A pass after \<^verbatim>\<open>video.md\<close> is deleted
  removes the mark, and so does a pass after the setting is turned off.
\<close>

theorem update_marks_witness:
  "marksTracked (newHiddenFilesManager hidingSettings) explorerItems
   \<and> itemsOf (snd (update (newHiddenFilesManager hidingSettings) videoVault explorerItems))
       = [(''video.mp4'', True), (''video.md'', False), (''notes'', False)]
   \<and> itemsOf (snd (update (fst (update (newHiddenFilesManager hidingSettings) videoVault explorerItems))
                      (videoVault(''video.md'' := None))
                      (snd (update (newHiddenFilesManager hidingSettings) videoVault explorerItems))))
       = [(''video.mp4'', False), (''video.md'', False), (''notes'', False)]
   \<and> itemsOf (snd (update ((fst (update (newHiddenFilesManager hidingSettings) videoVault explorerItems))
                         \<lparr>settings := DEFAULT_SETTINGS\<rparr>)
                      videoVault
                      (snd (update (newHiddenFilesManager hidingSettings) videoVault explorerItems))))
       = [(''video.mp4'', False), (''video.md'', False), (''notes'', False)]"
proof -
  have t: "marksTracked (newHiddenFilesManager hidingSettings) explorerItems"
    by (simp add: marksTracked_def itemsOf_def explorerItems_def)
  have first: "update (newHiddenFilesManager hidingSettings) videoVault explorerItems
      = (\<lparr>settings = hidingSettings, hasHiddenFiles = True\<rparr>,
         Some \<lparr>fileItems = Some [(''video.mp4'', True), (''video.md'', False), (''notes'', False)]\<rparr>)"
    by (simp add: update_def newHiddenFilesManager_def hidingSettings_def DEFAULT_SETTINGS_def
          explorerItems_def videoVault_def getAbstractFileByPath_def Let_def)
  show ?thesis
    using t update_marks [OF t, of videoVault]
    unfolding first
    by (simp add: update_def hidingSettings_def DEFAULT_SETTINGS_def itemsOf_def
          videoVault_def getAbstractFileByPath_def Let_def)
qed

subsection \<open>Bulk removal\<close>

lemma removeLoop_ops: "removeLoop h ops files s = removeLoop h ops' files s"
proof (induction files arbitrary: s)
  case Nil
  show ?case by (cases s) simp
next
  case (Cons f fs)
  obtain v r where s: "s = (v, r)" by (cases s)
  have g: "getNotePath ops f = getNotePath ops' f" by (rule getNotePath_ignores_settings)
  show ?case
    unfolding s by (simp add: Let_def g Cons.IH split: sum.split)
qed

lemma confirmAndRemoveFileNotes_plugin:
  "confirmAndRemoveFileNotes p h files confirmed v = confirmAndRemoveFileNotes p' h files confirmed v"
proof -
  have g: "getNotePath (fileOps p) = getNotePath (fileOps p')"
    by (rule ext) (rule getNotePath_ignores_settings)
  have r: "removeLoop h (fileOps p) files (v, noResult) = removeLoop h (fileOps p') files (v, noResult)"
    by (rule removeLoop_ops)
  show ?thesis
    by (simp only: confirmAndRemoveFileNotes_def getExistingNotes_def removeFileNotes_def g r)
qed

lemma removeLoop_Cons:
  "removeLoop h ops (f # fs) (v, r) =
     (if \<not> isTFile (v (getNotePath ops f))
      then removeLoop h ops fs (v, r\<lparr>skipped := skipped r + 1\<rparr>)
      else if deleteFails h v (getNotePath ops f)
      then removeLoop h ops fs (v, r\<lparr>failed := failed r + 1\<rparr>)
      else removeLoop h ops fs (v(getNotePath ops f := None), r\<lparr>success := success r + 1\<rparr>))"
  by (auto simp: Let_def vault_delete_def getAbstractFileByPath_def)

lemma removeLoop_no_new_file:
  "\<not> isTFile (v q) \<Longrightarrow> \<not> isTFile (fst (removeLoop h ops files (v, r)) q)"
proof (induction files arbitrary: v r)
  case Nil
  then show ?case by simp
next
  case (Cons f fs)
  let ?p = "getNotePath ops f"
  have a: "\<not> isTFile ((v(?p := None)) q)"
    using Cons.prems by simp
  have same: "\<not> isTFile (fst (removeLoop h ops fs (v, r')) q)" for r'
    using Cons.prems by (rule Cons.IH [of v])
  have gone: "\<not> isTFile (fst (removeLoop h ops fs (v(?p := None), r')) q)" for r'
    using a by (rule Cons.IH [of "v(?p := None)"])
  show ?case
    by (simp only: removeLoop_Cons same gone split: if_split) simp
qed

lemma removeLoop_removes:
  assumes "\<And>w q. \<not> deleteFails h w q"
  shows "f \<in> set files \<Longrightarrow> \<not> isTFile (fst (removeLoop h ops files (v, r)) (getNotePath ops f))"
proof (induction files arbitrary: v r)
  case Nil
  then show ?case by simp
next
  case (Cons g gs)
  let ?q = "getNotePath ops g"
  show ?case
  proof (cases "f = g")
    case True
    have "\<not> isTFile ((v(?q := None)) ?q)" by simp
    then have a: "\<not> isTFile (fst (removeLoop h ops gs (v(?q := None), r')) ?q)" for r'
      by (rule removeLoop_no_new_file [of "v(?q := None)" ?q])
    have b: "\<not> isTFile (fst (removeLoop h ops gs (v, r')) ?q)" if "\<not> isTFile (v ?q)" for r'
      using that by (rule removeLoop_no_new_file [of v ?q])
    show ?thesis
      unfolding True
      by (simp only: removeLoop_Cons a assms split: if_split) (simp add: b)
  next
    case False
    with Cons.prems have "f \<in> set gs" by simp
    then have "\<not> isTFile (fst (removeLoop h ops gs (w, r')) (getNotePath ops f))" for w r'
      by (rule Cons.IH)
    then show ?thesis
      by (simp only: removeLoop_Cons split: if_split) simp
  qed
qed

text \<open>
  Claim C10. The two bulk removals hand to the confirmation step every file of the vault
  (for the folder variant: every file under the folder) whose extension, in lower case,
  is none of \<^verbatim>\<open>md\<close>, \<^verbatim>\<open>canvas\<close>, \<^verbatim>\<open>base\<close>. The plugin state plays no part: any two states,
  whatever their extension string and exclusion lists, give the same result. So when the
  user confirms and deletion does not fail, the note file of every such file of the vault
  is gone afterwards, also for a file that batch create would not select.
\<close>

theorem bulk_remove_selection:
  "removeAllFileNotes p h allFiles confirmed v
     = confirmAndRemoveFileNotes p h
         (filter (\<lambda>f. toLowerCase (extension f) \<notin> {''md'', ''canvas'', ''base''}) allFiles)
         confirmed v
   \<and> removeFileNotesInFolder p h allFiles folder confirmed v
     = confirmAndRemoveFileNotes p h
         (filter (\<lambda>f. startsWith (path f) (path folder @ ''/'')
                       \<and> toLowerCase (extension f) \<notin> {''md'', ''canvas'', ''base''}) allFiles)
         confirmed v
   \<and> removeAllFileNotes p' h allFiles confirmed v = removeAllFileNotes p h allFiles confirmed v
   \<and> removeFileNotesInFolder p' h allFiles folder confirmed v
     = removeFileNotesInFolder p h allFiles folder confirmed v
   \<and> (x \<in> set allFiles \<and> isEligibleFile (AFile x) \<and> isTFile (v (getNotePath (fileOps p) x))
        \<and> (\<forall>w q. \<not> deleteFails h w q)
       \<longrightarrow> \<not> isTFile (fst (removeAllFileNotes p h allFiles True v) (getNotePath (fileOps p) x)))"
proof -
  have a: "removeAllFileNotes p h allFiles confirmed v
     = confirmAndRemoveFileNotes p h
         (filter (\<lambda>f. toLowerCase (extension f) \<notin> {''md'', ''canvas'', ''base''}) allFiles)
         confirmed v"
    by (simp add: removeAllFileNotes_def EXCLUDED_EXTENSIONS_def)
  have b: "removeFileNotesInFolder p h allFiles folder confirmed v
     = confirmAndRemoveFileNotes p h
         (filter (\<lambda>f. startsWith (path f) (path folder @ ''/'')
                       \<and> toLowerCase (extension f) \<notin> {''md'', ''canvas'', ''base''}) allFiles)
         confirmed v"
    by (simp add: removeFileNotesInFolder_def EXCLUDED_EXTENSIONS_def)
  have c: "removeAllFileNotes p' h allFiles confirmed v = removeAllFileNotes p h allFiles confirmed v"
    by (simp add: removeAllFileNotes_def confirmAndRemoveFileNotes_plugin [of p'  _ _ _ _ p])
  have d: "removeFileNotesInFolder p' h allFiles folder confirmed v
     = removeFileNotesInFolder p h allFiles folder confirmed v"
    by (simp add: removeFileNotesInFolder_def confirmAndRemoveFileNotes_plugin [of p'  _ _ _ _ p])
  have e: "\<not> isTFile (fst (removeAllFileNotes p h allFiles True v) (getNotePath (fileOps p) x))"
    if x: "x \<in> set allFiles" "isEligibleFile (AFile x)" "isTFile (v (getNotePath (fileOps p) x))"
      and ok: "\<forall>w q. \<not> deleteFails h w q"
  proof -
    let ?files = "filter (\<lambda>f. isEligibleFile (AFile f)) allFiles"
    have mem: "x \<in> set ?files" using x by simp
    then have "getNotePath (fileOps p) x \<in> set (getExistingNotes (fileOps p) ?files v)"
      using x(3) by (simp add: getExistingNotes_def getAbstractFileByPath_def)
    then have ne: "length (getExistingNotes (fileOps p) ?files v) \<noteq> 0" by auto
    have "\<not> isTFile (fst (removeLoop h (fileOps p) ?files (v, noResult)) (getNotePath (fileOps p) x))"
      using ok mem by (intro removeLoop_removes) auto
    then show ?thesis
      using ne by (simp add: removeAllFileNotes_def confirmAndRemoveFileNotes_def removeFileNotes_def
            case_prod_beta Let_def)
  qed
  from a b c d e show ?thesis by blast
qed


text \<open>
  With the extensions \<^verbatim>\<open>mp4, pdf\<close>, the excluded file \<^verbatim>\<open>x.pdf\<close> and the excluded folder
  \<^verbatim>\<open>A\<close>, batch create selects none of \<^verbatim>\<open>x.pdf\<close>, \<^verbatim>\<open>c.png\<close>, \<^verbatim>\<open>A/B/c.mp4\<close>; the bulk
  removal over the vault deletes the notes of all three, and the removal in folder \<^verbatim>\<open>A\<close>
  deletes the one below it.
\<close>

theorem bulk_remove_selection_witness:
  "\<not> fst (shouldCreateNoteFor (loadSettings exclusionSettings) (AFile excludedFile))
   \<and> \<not> fst (shouldCreateNoteFor (loadSettings exclusionSettings) (AFile imageFile))
   \<and> \<not> fst (shouldCreateNoteFor (loadSettings exclusionSettings) (AFile nestedFile))
   \<and> snd (removeAllFileNotes (loadSettings exclusionSettings) reliableHost
            [excludedFile, noteFile, imageFile, nestedFile] True manyNotesVault)
       = Some \<lparr> success = 3, skipped = 0, failed = 0 \<rparr>
   \<and> fst (removeAllFileNotes (loadSettings exclusionSettings) reliableHost
            [excludedFile, noteFile, imageFile, nestedFile] True manyNotesVault) ''c.md'' = None
   \<and> snd (removeFileNotesInFolder (loadSettings exclusionSettings) reliableHost
            [excludedFile, noteFile, imageFile, nestedFile] topFolderA True manyNotesVault)
       = Some \<lparr> success = 1, skipped = 0, failed = 0 \<rparr>"
proof -
  have ev: "fst (getExtensions (loadSettings exclusionSettings)) = {''mp4'', ''pdf''}"
    "getExtensions (loadSettings exclusionSettings)
       = ({''mp4'', ''pdf''}, (loadSettings exclusionSettings)\<lparr>cachedExtensions := Some {''mp4'', ''pdf''}\<rparr>)"
    by (simp_all add: getExtensions_def loadSettings_def rebuildExclusionSets_def exclusionSettings_def
          DEFAULT_SETTINGS_def parseExtensions_def trim_def isWhiteSpace_def toLowerCase_def
          toLowerChar_def Let_def insert_commute)
  have st: "excludedFiles (settings (loadSettings exclusionSettings)) = [''x.pdf'']"
    "excludedFolders (settings (loadSettings exclusionSettings)) = [''A'']"
    "excludedFilesSet (loadSettings exclusionSettings) = {''x.pdf''}"
    by (simp_all add: loadSettings_def rebuildExclusionSets_def exclusionSettings_def)
  have sel: "\<not> fst (shouldCreateNoteFor (loadSettings exclusionSettings) (AFile excludedFile))"
    "\<not> fst (shouldCreateNoteFor (loadSettings exclusionSettings) (AFile imageFile))"
    "\<not> fst (shouldCreateNoteFor (loadSettings exclusionSettings) (AFile nestedFile))"
    by (simp_all add: ev st excludedFile_def imageFile_def nestedFile_def EXCLUDED_EXTENSIONS_def
          toLowerCase_def toLowerChar_def isInExcludedFolder_def startsWith_def)
  show ?thesis
    using sel
      bulk_remove_selection [where p = "loadSettings exclusionSettings" and h = reliableHost
        and allFiles = "[excludedFile, noteFile, imageFile, nestedFile]" and confirmed = True
        and v = manyNotesVault and folder = topFolderA and x = imageFile
        and p' = "loadSettings DEFAULT_SETTINGS"]
    by (simp add: confirmAndRemoveFileNotes_def getExistingNotes_def removeFileNotes_def
          getNotePath_def getAbstractFileByPath_def vault_delete_def reliableHost_def
          manyNotesVault_def excludedFile_def noteFile_def imageFile_def nestedFile_def topFolderA_def
          toLowerCase_def toLowerChar_def startsWith_def noResult_def Let_def)
qed

end
